theory Spec2Isabelle
  imports Main
begin

section \<open>The counted event of \<^verbatim>\<open>octoprint/util/__init__.py\<close>\<close>

text \<open>
  The class \<^verbatim>\<open>CountedEvent\<close> holds four attributes: the integer \<^verbatim>\<open>_counter\<close>, the optional
  ceiling \<^verbatim>\<open>_max\<close> (\<^verbatim>\<open>None\<close> when unbounded), the lock \<^verbatim>\<open>_mutex\<close> and the flag of the
  \<^verbatim>\<open>threading.Event\<close> object \<^verbatim>\<open>_event\<close>. Python integers are unbounded, hence \<open>int\<close>.
  The lock is a non-reentrant \<^verbatim>\<open>threading.Lock\<close>: the record keeps whether it is held,
  and a method that tries to take a held lock never returns, which is the value \<open>None\<close>.
\<close>

record CountedEvent =
  counter :: int
  max_val :: "int option"
  mutex :: bool
  event :: bool

subsection \<open>The lock\<close>

definition acquire :: "CountedEvent \<Rightarrow> CountedEvent option" where
  "acquire self = (if mutex self then None else Some (self\<lparr>mutex := True\<rparr>))"

definition release :: "CountedEvent \<Rightarrow> CountedEvent" where
  "release self = self\<lparr>mutex := False\<rparr>"

subsection \<open>The methods\<close>

text \<open>
  \<^verbatim>\<open>_internal_set(value)\<close> stores the value, then either resets the counter to 0 and clears
  the flag (value at most 0), or caps the counter at the ceiling and sets the flag.
\<close>

definition internal_set :: "CountedEvent \<Rightarrow> int \<Rightarrow> CountedEvent" where
  "internal_set self v =
     (let s1 = self\<lparr>counter := v\<rparr> in
      if counter s1 \<le> 0 then s1\<lparr>counter := 0, event := False\<rparr>
      else
        (let s2 = (case max_val s1 of
                     None \<Rightarrow> s1
                   | Some m \<Rightarrow> if counter s1 > m then s1\<lparr>counter := m\<rparr> else s1)
         in s2\<lparr>event := True\<rparr>))"

text \<open>\<^verbatim>\<open>__init__(value=0, max=None)\<close>: a fresh lock, a fresh (cleared) flag, counter 0, then
  the initial value goes through \<^verbatim>\<open>_internal_set\<close>.\<close>

definition CountedEvent_init :: "int \<Rightarrow> int option \<Rightarrow> CountedEvent" where
  "CountedEvent_init v m =
     internal_set \<lparr>counter = 0, max_val = m, mutex = False, event = False\<rparr> v"

text \<open>\<^verbatim>\<open>set()\<close>, \<^verbatim>\<open>clear(completely=False)\<close> and \<^verbatim>\<open>blocked()\<close> run under \<^verbatim>\<open>with self._mutex\<close>.\<close>

definition set_ce :: "CountedEvent \<Rightarrow> CountedEvent option" where
  "set_ce self =
     (case acquire self of
        None \<Rightarrow> None
      | Some s \<Rightarrow> Some (release (internal_set s (counter s + 1))))"

definition clear :: "CountedEvent \<Rightarrow> bool \<Rightarrow> CountedEvent option" where
  "clear self completely =
     (case acquire self of
        None \<Rightarrow> None
      | Some s \<Rightarrow>
          Some (release (if completely then internal_set s 0
                         else internal_set s (counter s - 1))))"

definition blocked :: "CountedEvent \<Rightarrow> (bool \<times> CountedEvent) option" where
  "blocked self =
     (case acquire self of
        None \<Rightarrow> None
      | Some s \<Rightarrow> Some (counter s = 0, release s))"

subsection \<open>Sequences of calls\<close>

datatype call = CallSet | CallClear bool

fun apply_call :: "CountedEvent \<Rightarrow> call \<Rightarrow> CountedEvent option" where
  "apply_call self CallSet = set_ce self"
| "apply_call self (CallClear completely) = clear self completely"

fun run_calls :: "CountedEvent \<Rightarrow> call list \<Rightarrow> CountedEvent option" where
  "run_calls self [] = Some self"
| "run_calls self (c # cs) =
     (case apply_call self c of None \<Rightarrow> None | Some s \<Rightarrow> run_calls s cs)"

text \<open>The states an instance can be in: the one the constructor leaves, and every state
  a returning call of \<^verbatim>\<open>set\<close>, \<^verbatim>\<open>clear\<close> or \<^verbatim>\<open>blocked\<close> leaves from such a state.\<close>

inductive reachable :: "CountedEvent \<Rightarrow> bool" where
  reach_init: "reachable (CountedEvent_init v m)"
| reach_set: "reachable s \<Longrightarrow> set_ce s = Some s' \<Longrightarrow> reachable s'"
| reach_clear: "reachable s \<Longrightarrow> clear s completely = Some s' \<Longrightarrow> reachable s'"
| reach_blocked: "reachable s \<Longrightarrow> blocked s = Some (b, s') \<Longrightarrow> reachable s'"

text \<open>The data model of the specification allows no ceiling, or a ceiling that is not
  negative.\<close>

definition valid_max :: "int option \<Rightarrow> bool" where
  "valid_max m = (case m of None \<Rightarrow> True | Some k \<Rightarrow> 0 \<le> k)"

subsection \<open>The counter formulas of the specification\<close>

text \<open>The running net of a sequence of calls, as the specification words it: a set adds
  one, a clear that is not complete takes one away, a complete clear resets the net to 0.\<close>

fun net_step :: "int \<Rightarrow> call \<Rightarrow> int" where
  "net_step n CallSet = n + 1"
| "net_step n (CallClear completely) = (if completely then 0 else n - 1)"

definition net_sets_minus_clears :: "call list \<Rightarrow> int" where
  "net_sets_minus_clears cs = foldl net_step 0 cs"

text \<open>The clamp \<^verbatim>\<open>max(0, min(max_ceiling, n))\<close>, with no upper bound when there is no
  ceiling.\<close>

definition clamp :: "int option \<Rightarrow> int \<Rightarrow> int" where
  "clamp m n = max 0 (case m of None \<Rightarrow> n | Some k \<Rightarrow> min k n)"

text \<open>The running net with the clamp applied after every call instead of once at the
  end.\<close>

definition clamped_step :: "int option \<Rightarrow> int \<Rightarrow> call \<Rightarrow> int" where
  "clamped_step m n c = clamp m (net_step n c)"

definition clamped_net :: "int option \<Rightarrow> call list \<Rightarrow> int" where
  "clamped_net m cs = foldl (clamped_step m) 0 cs"

section \<open>Properties of the methods\<close>

lemma internal_set_max_val [simp]: "max_val (internal_set s v) = max_val s"
  by (simp add: internal_set_def Let_def split: option.split)

lemma internal_set_mutex [simp]: "mutex (internal_set s v) = mutex s"
  by (simp add: internal_set_def Let_def split: option.split)

lemma internal_set_counter:
  "counter (internal_set s v) =
     (if v \<le> 0 then 0 else case max_val s of None \<Rightarrow> v | Some m \<Rightarrow> min v m)"
  by (simp add: internal_set_def Let_def min_def split: option.split)

lemma internal_set_event [simp]: "event (internal_set s v) = (0 < v)"
  by (auto simp add: internal_set_def Let_def split: option.split)

lemma internal_set_clamp:
  "valid_max (max_val s) \<Longrightarrow> counter (internal_set s v) = clamp (max_val s) v"
  by (auto simp add: internal_set_counter clamp_def valid_max_def split: option.split)

lemma CountedEvent_init_max_val [simp]: "max_val (CountedEvent_init v m) = m"
  by (simp add: CountedEvent_init_def)

lemma CountedEvent_init_mutex [simp]: "\<not> mutex (CountedEvent_init v m)"
  by (simp add: CountedEvent_init_def)

lemma set_ce_free:
  "\<not> mutex s \<Longrightarrow> set_ce s = Some ((internal_set s (counter s + 1))\<lparr>mutex := False\<rparr>)"
  by (simp add: set_ce_def acquire_def release_def internal_set_def Let_def
      split: option.split)

lemma clear_free:
  "\<not> mutex s \<Longrightarrow>
   clear s completely =
     Some ((internal_set s (if completely then 0 else counter s - 1))\<lparr>mutex := False\<rparr>)"
  by (simp add: clear_def acquire_def release_def internal_set_def Let_def
      split: option.split)

lemma blocked_free: "\<not> mutex s \<Longrightarrow> blocked s = Some (counter s = 0, s)"
  by (simp add: blocked_def acquire_def release_def)

lemma set_ce_Some_mutex: "set_ce s = Some s' \<Longrightarrow> \<not> mutex s'"
  by (auto simp add: set_ce_def release_def split: option.splits)

lemma clear_Some_mutex: "clear s completely = Some s' \<Longrightarrow> \<not> mutex s'"
  by (auto simp add: clear_def release_def split: option.splits)

lemma blocked_Some_mutex: "blocked s = Some (b, s') \<Longrightarrow> \<not> mutex s'"
  by (auto simp add: blocked_def release_def split: option.splits)

lemma reachable_mutex_free: "reachable s \<Longrightarrow> \<not> mutex s"
  by (induction rule: reachable.induct)
    (simp_all add: set_ce_Some_mutex clear_Some_mutex blocked_Some_mutex)

subsection \<open>Invariants of the reachable states\<close>

lemma reachable_counter_shape:
  "reachable s \<Longrightarrow> 0 \<le> counter s \<or> max_val s = Some (counter s)"
proof (induction rule: reachable.induct)
  case (reach_init v m)
  show ?case
    by (auto simp add: CountedEvent_init_def internal_set_counter min_def split: option.split)
next
  case (reach_set s s')
  then have "\<not> mutex s" by (simp add: reachable_mutex_free)
  with reach_set show ?case
    by (auto simp add: set_ce_free internal_set_counter min_def split: option.splits if_splits)
next
  case (reach_clear s completely s')
  then have "\<not> mutex s" by (simp add: reachable_mutex_free)
  with reach_clear show ?case
    by (auto simp add: clear_free internal_set_counter min_def split: option.splits if_splits)
next
  case (reach_blocked s b s')
  then have "\<not> mutex s" by (simp add: reachable_mutex_free)
  with reach_blocked show ?case
    by (auto simp add: blocked_free)
qed

lemma reachable_counter_nonneg:
  "reachable s \<Longrightarrow> valid_max (max_val s) \<Longrightarrow> 0 \<le> counter s"
  using reachable_counter_shape [of s] by (auto simp add: valid_max_def)

lemma reachable_counter_le_max:
  "reachable s \<Longrightarrow> max_val s = Some m \<Longrightarrow> 0 \<le> m \<Longrightarrow> counter s \<le> m"
proof (induction rule: reachable.induct)
  case (reach_init v k)
  then show ?case
    by (auto simp add: CountedEvent_init_def internal_set_counter)
next
  case (reach_set s s')
  then have "\<not> mutex s" by (simp add: reachable_mutex_free)
  with reach_set show ?case
    by (auto simp add: set_ce_free internal_set_counter split: if_splits)
next
  case (reach_clear s completely s')
  then have "\<not> mutex s" by (simp add: reachable_mutex_free)
  with reach_clear show ?case
    by (auto simp add: clear_free internal_set_counter split: if_splits)
next
  case (reach_blocked s b s')
  then have "\<not> mutex s" by (simp add: reachable_mutex_free)
  with reach_blocked show ?case
    by (auto simp add: blocked_free)
qed

lemma reachable_counter_zero_or_le_max:
  "reachable s \<Longrightarrow> max_val s = Some m \<Longrightarrow> counter s = 0 \<or> counter s \<le> m"
proof (induction rule: reachable.induct)
  case (reach_init v k)
  then show ?case
    by (auto simp add: CountedEvent_init_def internal_set_counter)
next
  case (reach_set s s')
  then have "\<not> mutex s" by (simp add: reachable_mutex_free)
  with reach_set show ?case
    by (auto simp add: set_ce_free internal_set_counter split: if_splits)
next
  case (reach_clear s completely s')
  then have "\<not> mutex s" by (simp add: reachable_mutex_free)
  with reach_clear show ?case
    by (auto simp add: clear_free internal_set_counter split: if_splits)
next
  case (reach_blocked s b s')
  then have "\<not> mutex s" by (simp add: reachable_mutex_free)
  with reach_blocked show ?case
    by (auto simp add: blocked_free)
qed

lemma reachable_event_iff:
  "reachable s \<Longrightarrow> valid_max (max_val s) \<Longrightarrow> max_val s \<noteq> Some 0 \<Longrightarrow>
   event s = (0 < counter s)"
proof (induction rule: reachable.induct)
  case (reach_init v k)
  then show ?case
    by (auto simp add: CountedEvent_init_def internal_set_counter valid_max_def
        split: option.splits)
next
  case (reach_set s s')
  then have "\<not> mutex s" by (simp add: reachable_mutex_free)
  with reach_set show ?case
    by (auto simp add: set_ce_free internal_set_counter valid_max_def
        split: option.splits if_splits)
next
  case (reach_clear s completely s')
  then have "\<not> mutex s" by (simp add: reachable_mutex_free)
  with reach_clear show ?case
    by (auto simp add: clear_free internal_set_counter valid_max_def
        split: option.splits if_splits)
next
  case (reach_blocked s b s')
  then have "\<not> mutex s" by (simp add: reachable_mutex_free)
  with reach_blocked show ?case
    by (auto simp add: blocked_free)
qed

lemma run_calls_counter:
  "\<not> mutex s \<Longrightarrow> valid_max (max_val s) \<Longrightarrow>
   map_option counter (run_calls s cs) = Some (foldl (clamped_step (max_val s)) (counter s) cs)"
proof (induction cs arbitrary: s)
  case Nil
  show ?case by simp
next
  case (Cons c cs)
  show ?case
  proof (cases c)
    case CallSet
    let ?s' = "(internal_set s (counter s + 1))\<lparr>mutex := False\<rparr>"
    have "map_option counter (run_calls ?s' cs)
        = Some (foldl (clamped_step (max_val ?s')) (counter ?s') cs)"
      using Cons.prems by (intro Cons.IH) simp_all
    moreover have "counter ?s' = clamped_step (max_val s) (counter s) c"
      using Cons.prems CallSet by (simp add: internal_set_clamp clamped_step_def)
    ultimately show ?thesis
      using Cons.prems CallSet by (simp add: set_ce_free)
  next
    case (CallClear completely)
    let ?s' = "(internal_set s (if completely then 0 else counter s - 1))\<lparr>mutex := False\<rparr>"
    have "map_option counter (run_calls ?s' cs)
        = Some (foldl (clamped_step (max_val ?s')) (counter ?s') cs)"
      using Cons.prems by (intro Cons.IH) simp_all
    moreover have "counter ?s' = clamped_step (max_val s) (counter s) c"
      using Cons.prems CallClear by (simp add: internal_set_clamp clamped_step_def)
    ultimately show ?thesis
      using Cons.prems CallClear by (simp add: clear_free)
  qed
qed

section \<open>The claims\<close>

text \<open>
  Claim C1, as the code has it: for an instance constructed with counter 0 and a ceiling
  that is absent or not negative, the counter after any finite sequence of \<^verbatim>\<open>set()\<close>,
  \<^verbatim>\<open>clear()\<close> and \<^verbatim>\<open>clear(completely=True)\<close> calls is the running net of sets minus
  clears in which the clamp \<^verbatim>\<open>max(0, min(max_ceiling, n))\<close> is applied after every call
  (a complete clear resets it to 0), and every call of the sequence returns.
\<close>

theorem C1_counter_is_clamped_running_net:
  "valid_max m \<Longrightarrow>
   map_option counter (run_calls (CountedEvent_init 0 m) cs) = Some (clamped_net m cs)"
  using run_calls_counter [of "CountedEvent_init 0 m" cs]
  by (simp add: clamped_net_def) (simp add: CountedEvent_init_def internal_set_counter)

text \<open>The instance of C1 at ceiling 3 and four sets followed by one clear: the
  counter is 2.\<close>

theorem C1_witness:
  "valid_max (Some 3) \<and>
   map_option counter
     (run_calls (CountedEvent_init 0 (Some 3)) [CallSet, CallSet, CallSet, CallSet, CallClear False])
   = Some 2 \<and>
   clamped_net (Some 3) [CallSet, CallSet, CallSet, CallSet, CallClear False] = 2"
  using C1_counter_is_clamped_running_net
    [of "Some 3" "[CallSet, CallSet, CallSet, CallSet, CallClear False]"]
  by (simp add: valid_max_def clamped_net_def clamped_step_def clamp_def)

text \<open>
  Claim C1, as stated, clamps the net only once, at the end. After \<^verbatim>\<open>clear()\<close> then
  \<^verbatim>\<open>set()\<close> on a fresh instance with ceiling 3 the net is 0, so the stated formula gives
  0, while the counter is 1: the clear on the zero counter was not remembered.
\<close>

theorem C1_counterexample:
  "map_option counter (run_calls (CountedEvent_init 0 (Some 3)) [CallClear False, CallSet])
     = Some 1 \<and>
   clamp (Some 3) (net_sets_minus_clears [CallClear False, CallSet]) = 0"
  by (simp add: CountedEvent_init_def set_ce_def clear_def acquire_def release_def
      internal_set_def clamp_def net_sets_minus_clears_def)

text \<open>
  Claim C2 says that the flag of the event is set exactly when the counter is positive,
  in every reachable state and for every ceiling the data model allows, ceiling 0
  included. The code at ceiling 0: \<^verbatim>\<open>CountedEvent(0, max=0)\<close> followed by \<^verbatim>\<open>set()\<close> takes
  the branch of a positive value, caps the counter at 0 and then sets the flag, so the
  counter is 0 and the flag is set. (For every other allowed ceiling the equivalence
  holds: lemma \<open>reachable_event_iff\<close>.)
\<close>

theorem C2_flag_set_at_zero_counter:
  "set_ce (CountedEvent_init 0 (Some 0))
     = Some \<lparr>counter = 0, max_val = Some 0, mutex = False, event = True\<rparr>"
  by (simp add: CountedEvent_init_def set_ce_def acquire_def release_def internal_set_def)

text \<open>
  Claim C3: in every reachable state \<^verbatim>\<open>blocked()\<close> returns, its result is true exactly
  when the counter is 0, and the state after the call is the state before it.
\<close>

theorem C3_blocked_iff_counter_zero:
  "reachable s \<Longrightarrow> blocked s = Some (counter s = 0, s)"
  by (simp add: reachable_mutex_free blocked_free)

text \<open>The instance of C3 at the state \<^verbatim>\<open>CountedEvent(2)\<close> leaves: not blocked.\<close>

theorem C3_witness:
  "reachable (CountedEvent_init 2 None) \<and>
   blocked (CountedEvent_init 2 None) = Some (False, CountedEvent_init 2 None)"
  using C3_blocked_iff_counter_zero [OF reach_init [of 2 None]] reach_init [of 2 None]
  by (simp add: CountedEvent_init_def internal_set_def)

text \<open>
  Claim C4, as the code has it: with a ceiling \<open>m\<close> that is not negative, the counter
  of a reachable state is at most \<open>m\<close>; \<^verbatim>\<open>set()\<close> in a state whose counter is \<open>m\<close>
  leaves the counter at \<open>m\<close>, and adds one below the ceiling.
\<close>

theorem C4_counter_le_max:
  "reachable s \<Longrightarrow> max_val s = Some m \<Longrightarrow> 0 \<le> m \<Longrightarrow>
   counter s \<le> m \<and>
   (if counter s = m then map_option counter (set_ce s) = Some m
    else map_option counter (set_ce s) = Some (counter s + 1))"
proof -
  assume r: "reachable s" and m: "max_val s = Some m" and nn: "0 \<le> m"
  have le: "counter s \<le> m" using r m nn by (rule reachable_counter_le_max)
  have c0: "0 \<le> counter s" using r m nn
    by (intro reachable_counter_nonneg) (simp_all add: valid_max_def)
  have "\<not> mutex s" using r by (rule reachable_mutex_free)
  then show ?thesis using le c0 m nn
    by (simp add: set_ce_free internal_set_counter)
qed

text \<open>The instance of C4 at \<^verbatim>\<open>CountedEvent(5, max=3)\<close>: the counter is 3 and stays 3
  after \<^verbatim>\<open>set()\<close>.\<close>

theorem C4_witness:
  "reachable (CountedEvent_init 5 (Some 3)) \<and>
   max_val (CountedEvent_init 5 (Some 3)) = Some 3 \<and> (0::int) \<le> 3 \<and>
   counter (CountedEvent_init 5 (Some 3)) = 3 \<and>
   map_option counter (set_ce (CountedEvent_init 5 (Some 3))) = Some 3"
  using C4_counter_le_max [OF reach_init [of 5 "Some 3"], of 3] reach_init [of 5 "Some 3"]
  by (simp add: CountedEvent_init_def internal_set_def)

text \<open>
  Claim C4, as stated, speaks of every ceiling, and the constructor stores the ceiling
  unchecked. \<^verbatim>\<open>CountedEvent(0, max=-1)\<close> has counter 0, above its ceiling; and after
  \<^verbatim>\<open>CountedEvent(0, max=-2).set()\<close> the counter equals the ceiling \<open>-2\<close>, where one more
  \<^verbatim>\<open>set()\<close> passes 0 down and leaves the counter at 0, not at the ceiling.
\<close>

theorem C4_counterexample:
  "reachable (CountedEvent_init 0 (Some (- 1))) \<and>
   max_val (CountedEvent_init 0 (Some (- 1))) = Some (- 1) \<and>
   counter (CountedEvent_init 0 (Some (- 1))) = 0 \<and>
   set_ce (CountedEvent_init 0 (Some (- 2)))
     = Some \<lparr>counter = - 2, max_val = Some (- 2), mutex = False, event = True\<rparr> \<and>
   set_ce \<lparr>counter = - 2, max_val = Some (- 2), mutex = False, event = True\<rparr>
     = Some \<lparr>counter = 0, max_val = Some (- 2), mutex = False, event = False\<rparr>"
  using reach_init [of 0 "Some (- 1)"]
  by (simp add: CountedEvent_init_def set_ce_def acquire_def release_def internal_set_def)

text \<open>
  Claim C5, as the code has it: in a reachable state whose ceiling is absent or not
  negative the counter is never negative; and in every reachable state, whatever the
  ceiling, \<^verbatim>\<open>clear()\<close> at counter 0 leaves the counter at 0 and the flag cleared, and
  takes one away from a positive counter.
\<close>

theorem C5_counter_nonneg:
  "reachable s \<Longrightarrow>
   (valid_max (max_val s) \<longrightarrow> 0 \<le> counter s) \<and>
   (if counter s = 0
    then map_option counter (clear s False) = Some 0 \<and>
         map_option event (clear s False) = Some False
    else 0 < counter s \<longrightarrow> map_option counter (clear s False) = Some (counter s - 1))"
proof -
  assume r: "reachable s"
  have c0: "valid_max (max_val s) \<longrightarrow> 0 \<le> counter s"
    using r by (simp add: reachable_counter_nonneg)
  have le: "\<And>m. max_val s = Some m \<Longrightarrow> counter s = 0 \<or> counter s \<le> m"
    using r by (rule reachable_counter_zero_or_le_max)
  have "\<not> mutex s" using r by (rule reachable_mutex_free)
  then show ?thesis using c0 le
    by (auto simp add: clear_free internal_set_counter split: option.splits)
qed

text \<open>The instance of C5 at \<^verbatim>\<open>CountedEvent(0, max=3)\<close>: \<^verbatim>\<open>clear()\<close> leaves counter 0 and
  the flag cleared.\<close>

theorem C5_witness:
  "reachable (CountedEvent_init 0 (Some 3)) \<and> valid_max (max_val (CountedEvent_init 0 (Some 3))) \<and>
   counter (CountedEvent_init 0 (Some 3)) = 0 \<and>
   map_option counter (clear (CountedEvent_init 0 (Some 3)) False) = Some 0 \<and>
   map_option event (clear (CountedEvent_init 0 (Some 3)) False) = Some False"
  using C5_counter_nonneg [OF reach_init [of 0 "Some 3"]] reach_init [of 0 "Some 3"]
  by (simp add: CountedEvent_init_def internal_set_def valid_max_def)

text \<open>
  Claim C5, as stated, speaks of every instance, and the constructor stores the ceiling
  unchecked. \<^verbatim>\<open>CountedEvent(0, max=-2)\<close> followed by \<^verbatim>\<open>set()\<close> takes the branch of a
  positive value and caps the counter at the ceiling: a reachable state with counter
  \<open>-2\<close>.
\<close>

theorem C5_counterexample:
  "reachable (CountedEvent_init 0 (Some (- 2))) \<and>
   set_ce (CountedEvent_init 0 (Some (- 2)))
     = Some \<lparr>counter = - 2, max_val = Some (- 2), mutex = False, event = True\<rparr> \<and>
   reachable \<lparr>counter = - 2, max_val = Some (- 2), mutex = False, event = True\<rparr> \<and>
   counter \<lparr>counter = - 2, max_val = Some (- 2), mutex = False, event = True\<rparr> < 0"
proof -
  have r: "reachable (CountedEvent_init 0 (Some (- 2)))" by (rule reach_init)
  have s: "set_ce (CountedEvent_init 0 (Some (- 2)))
     = Some \<lparr>counter = - 2, max_val = Some (- 2), mutex = False, event = True\<rparr>"
    by (simp add: CountedEvent_init_def set_ce_def acquire_def release_def internal_set_def)
  have "reachable \<lparr>counter = - 2, max_val = Some (- 2), mutex = False, event = True\<rparr>"
    using r s by (rule reach_set)
  with r s show ?thesis by simp
qed

text \<open>
  Claim C6, the scenario \<^verbatim>\<open>CountedEvent(0, max=3)\<close>: four \<^verbatim>\<open>set()\<close> calls leave counter 3
  and \<^verbatim>\<open>blocked()\<close> false; three \<^verbatim>\<open>clear()\<close> calls then leave counter 0 and
  \<^verbatim>\<open>blocked()\<close> true; one more \<^verbatim>\<open>clear()\<close> changes nothing.
\<close>

theorem C6_scenario:
  "run_calls (CountedEvent_init 0 (Some 3)) [CallSet, CallSet, CallSet, CallSet]
     = Some \<lparr>counter = 3, max_val = Some 3, mutex = False, event = True\<rparr> \<and>
   blocked \<lparr>counter = 3, max_val = Some 3, mutex = False, event = True\<rparr>
     = Some (False, \<lparr>counter = 3, max_val = Some 3, mutex = False, event = True\<rparr>) \<and>
   run_calls \<lparr>counter = 3, max_val = Some 3, mutex = False, event = True\<rparr>
       [CallClear False, CallClear False, CallClear False]
     = Some \<lparr>counter = 0, max_val = Some 3, mutex = False, event = False\<rparr> \<and>
   blocked \<lparr>counter = 0, max_val = Some 3, mutex = False, event = False\<rparr>
     = Some (True, \<lparr>counter = 0, max_val = Some 3, mutex = False, event = False\<rparr>) \<and>
   clear \<lparr>counter = 0, max_val = Some 3, mutex = False, event = False\<rparr> False
     = Some \<lparr>counter = 0, max_val = Some 3, mutex = False, event = False\<rparr>"
  by (simp add: CountedEvent_init_def set_ce_def clear_def blocked_def acquire_def
      release_def internal_set_def)

text \<open>
  Claim C7: in every reachable state \<^verbatim>\<open>clear(completely=True)\<close> returns and leaves the
  counter at 0 and the flag cleared; in particular after construction with value 2,
  whatever the ceiling.
\<close>

theorem C7_clear_completely:
  "reachable s \<Longrightarrow>
   map_option counter (clear s True) = Some 0 \<and>
   map_option event (clear s True) = Some False \<and>
   map_option counter (clear (CountedEvent_init 2 m) True) = Some 0"
proof -
  assume r: "reachable s"
  have "\<not> mutex s" using r by (rule reachable_mutex_free)
  then show ?thesis
    by (simp add: clear_free internal_set_counter)
qed

text \<open>The instance of C7 at \<^verbatim>\<open>CountedEvent(2)\<close>, whose counter is 2.\<close>

theorem C7_witness:
  "reachable (CountedEvent_init 2 None) \<and>
   counter (CountedEvent_init 2 None) = 2 \<and>
   map_option counter (clear (CountedEvent_init 2 None) True) = Some 0 \<and>
   map_option event (clear (CountedEvent_init 2 None) True) = Some False"
  using C7_clear_completely [OF reach_init [of 2 None], of None] reach_init [of 2 None]
  by (simp add: CountedEvent_init_def internal_set_def)

text \<open>
  Claim C8: in every reachable state \<^verbatim>\<open>set()\<close> returns a state; the counter grows by
  exactly 1 when there is no ceiling or the counter is below it; and the flag is set
  whenever the call takes the counter from 0 to at least 1.
\<close>

theorem C8_set_succeeds:
  "reachable s \<Longrightarrow>
   (\<exists>s'. set_ce s = Some s' \<and>
      ((max_val s = None \<or> (\<exists>m. max_val s = Some m \<and> counter s < m))
         \<longrightarrow> counter s' = counter s + 1) \<and>
      (counter s = 0 \<and> 1 \<le> counter s' \<longrightarrow> event s'))"
proof -
  assume r: "reachable s"
  have free: "\<not> mutex s" using r by (rule reachable_mutex_free)
  have shape: "0 \<le> counter s \<or> max_val s = Some (counter s)"
    using r by (rule reachable_counter_shape)
  let ?s' = "(internal_set s (counter s + 1))\<lparr>mutex := False\<rparr>"
  have "set_ce s = Some ?s'" using free by (rule set_ce_free)
  moreover have "(max_val s = None \<or> (\<exists>m. max_val s = Some m \<and> counter s < m))
      \<longrightarrow> counter ?s' = counter s + 1"
    using shape by (auto simp add: internal_set_counter)
  moreover have "counter s = 0 \<and> 1 \<le> counter ?s' \<longrightarrow> event ?s'"
    by simp
  ultimately show ?thesis by blast
qed

text \<open>The instance of C8 at \<^verbatim>\<open>CountedEvent(0, max=3)\<close>: counter 1, flag set.\<close>

theorem C8_witness:
  "reachable (CountedEvent_init 0 (Some 3)) \<and>
   counter (CountedEvent_init 0 (Some 3)) = 0 \<and>
   set_ce (CountedEvent_init 0 (Some 3))
     = Some \<lparr>counter = 1, max_val = Some 3, mutex = False, event = True\<rparr>"
  using C8_set_succeeds [OF reach_init [of 0 "Some 3"]] reach_init [of 0 "Some 3"]
  by (simp add: CountedEvent_init_def set_ce_def acquire_def release_def internal_set_def)

text \<open>
  Claim C10: the constructor sends the initial value through \<^verbatim>\<open>_internal_set\<close>. A
  value \<open>v \<le> 0\<close> gives counter 0 and a cleared flag; a value \<open>v > 0\<close> gives counter
  \<open>min v m\<close> under a ceiling \<open>m\<close> (\<open>v\<close> itself with no ceiling) and a set flag. At
  ceiling 0 the counter is 0 for every value, and the flag is set for a positive one.
\<close>

theorem C10_constructor_clamps:
  "CountedEvent_init v m
     = \<lparr>counter = (if v \<le> 0 then 0 else case m of None \<Rightarrow> v | Some k \<Rightarrow> min v k),
        max_val = m, mutex = False, event = (0 < v)\<rparr> \<and>
   counter (CountedEvent_init v (Some 0)) = 0 \<and>
   event (CountedEvent_init v (Some 0)) = (0 < v)"
  by (auto simp add: CountedEvent_init_def internal_set_def Let_def min_def split: option.split)

end
